theory Spec2Isabelle
  imports Complex_Main
begin

section \<open>Data model\<close>

text \<open>
  The program is \<^verbatim>\<open>src/main.py\<close>. Its integers are Python's unbounded ints
  (\<^typ>\<open>int\<close>); the rotation angle and the probability are Python floats, modelled as
  exact reals (rounding is not modelled).

  The failures the program can exhibit are exceptions raised by the callees it uses:
  qiskit's register constructor rejects a negative size with \<^verbatim>\<open>CircuitError\<close>,
  Python's \<^verbatim>\<open>max\<close> raises \<^verbatim>\<open>ValueError\<close> on an empty sequence and
  \<^verbatim>\<open>/\<close> raises \<^verbatim>\<open>ZeroDivisionError\<close> on a zero divisor. The program itself
  contains no \<^verbatim>\<open>raise\<close> statement.
\<close>

datatype error = CircuitError | ValueError | ZeroDivisionError

text \<open>
  One entry of the circuit's instruction list: the gate kind, its qubit operands in the
  order of the call, the angle of \<^verbatim>\<open>rz\<close>, and for a measurement the qubit and the
  classical bit it is recorded into.
\<close>

datatype gate =
    H int
  | CX int int
  | RZ real int
  | CZ int int
  | Measure int int

text \<open>
  A \<^verbatim>\<open>QuantumCircuit(qr, cr)\<close> over one quantum and one classical register: the sizes
  of the two registers and the instruction list (\<^verbatim>\<open>circuit.data\<close>). Bit \<open>i\<close> of the
  only register is bit \<open>i\<close> of the circuit.
\<close>

record circuit =
  qubits :: int
  clbits :: int
  data :: "gate list"

section \<open>Python and qiskit primitives used by the program\<close>

text \<open>\<^verbatim>\<open>range(n)\<close> and \<^verbatim>\<open>range(a, b)\<close>: empty when the bound is not above the start.\<close>

definition py_range :: "int \<Rightarrow> int list" where
  "py_range n = [0..n - 1]"

definition py_range2 :: "int \<Rightarrow> int \<Rightarrow> int list" where
  "py_range2 a b = [a..b - 1]"

text \<open>
  \<^verbatim>\<open>QuantumRegister(size, name)\<close> and \<^verbatim>\<open>ClassicalRegister(size, name)\<close>: a register is
  represented by its size; a negative size is rejected by the library, size zero gives
  an empty register.
\<close>

definition QuantumRegister :: "int \<Rightarrow> error + int" where
  "QuantumRegister n = (if n < 0 then Inl CircuitError else Inr n)"

definition ClassicalRegister :: "int \<Rightarrow> error + int" where
  "ClassicalRegister n = (if n < 0 then Inl CircuitError else Inr n)"

definition QuantumCircuit :: "int \<Rightarrow> int \<Rightarrow> circuit" where
  "QuantumCircuit qr cr = \<lparr>qubits = qr, clbits = cr, data = []\<rparr>"

text \<open>The gate methods append one instruction to the circuit.\<close>

definition circuit_h :: "circuit \<Rightarrow> int \<Rightarrow> circuit" where
  "circuit_h c i = c\<lparr>data := data c @ [H i]\<rparr>"

definition circuit_cx :: "circuit \<Rightarrow> int \<Rightarrow> int \<Rightarrow> circuit" where
  "circuit_cx c control target = c\<lparr>data := data c @ [CX control target]\<rparr>"

definition circuit_rz :: "circuit \<Rightarrow> real \<Rightarrow> int \<Rightarrow> circuit" where
  "circuit_rz c theta i = c\<lparr>data := data c @ [RZ theta i]\<rparr>"

definition circuit_cz :: "circuit \<Rightarrow> int \<Rightarrow> int \<Rightarrow> circuit" where
  "circuit_cz c control target = c\<lparr>data := data c @ [CZ control target]\<rparr>"

text \<open>
  \<^verbatim>\<open>circuit.measure(qr, cr)\<close> with two whole registers: the library pairs the bits of
  the two registers position by position and appends one measurement per pair, in
  ascending position.
\<close>

definition circuit_measure :: "circuit \<Rightarrow> int \<Rightarrow> int \<Rightarrow> circuit" where
  "circuit_measure c qr cr =
     c\<lparr>data := data c @ map (\<lambda>(q, b). Measure q b) (zip (py_range qr) (py_range cr))\<rparr>"

section \<open>The circuit builder\<close>

text \<open>Lines 22-23: one Hadamard per qubit.\<close>

definition superposition_stage :: "int \<Rightarrow> int \<Rightarrow> circuit \<Rightarrow> circuit" where
  "superposition_stage num_qubits num_dimensions circuit =
     foldl (\<lambda>circuit i. circuit_h circuit i) circuit (py_range (num_qubits * num_dimensions))"

text \<open>Lines 26-30: controlled-NOT between neighbouring points of each dimension.\<close>

definition coupling_stage :: "int \<Rightarrow> int \<Rightarrow> circuit \<Rightarrow> circuit" where
  "coupling_stage num_qubits num_dimensions circuit =
     foldl (\<lambda>circuit dim.
       foldl (\<lambda>circuit i.
         let control = i + (dim * num_qubits);
             target = (i + 1) + (dim * num_qubits)
         in circuit_cx circuit control target)
       circuit (py_range (num_qubits - 1)))
     circuit (py_range num_dimensions)"

text \<open>Lines 33-34: one phase rotation per qubit.\<close>

definition phase_stage :: "int \<Rightarrow> int \<Rightarrow> circuit \<Rightarrow> circuit" where
  "phase_stage num_qubits num_dimensions circuit =
     foldl (\<lambda>circuit i. circuit_rz circuit (pi / 4) i) circuit
       (py_range (num_qubits * num_dimensions))"

text \<open>Lines 37-43: controlled-Z between the same point of two dimensions.\<close>

definition interference_stage :: "int \<Rightarrow> int \<Rightarrow> circuit \<Rightarrow> circuit" where
  "interference_stage num_qubits num_dimensions circuit =
     (if num_dimensions > 1 then
        foldl (\<lambda>circuit i.
          foldl (\<lambda>circuit dim1.
            foldl (\<lambda>circuit dim2.
              let control = i + (dim1 * num_qubits);
                  target = i + (dim2 * num_qubits)
              in circuit_cz circuit control target)
            circuit (py_range2 (dim1 + 1) num_dimensions))
          circuit (py_range num_dimensions))
        circuit (py_range num_qubits)
      else circuit)"

text \<open>Lines 5-48: the registers, the five stages in the order of the source, the result.\<close>

definition create_string_vibration_circuit :: "int \<Rightarrow> int \<Rightarrow> error + circuit" where
  "create_string_vibration_circuit num_qubits num_dimensions =
     (case QuantumRegister (num_qubits * num_dimensions) of
        Inl e \<Rightarrow> Inl e
      | Inr qr \<Rightarrow>
     (case ClassicalRegister (num_qubits * num_dimensions) of
        Inl e \<Rightarrow> Inl e
      | Inr cr \<Rightarrow>
     (let circuit = QuantumCircuit qr cr;
          circuit = superposition_stage num_qubits num_dimensions circuit;
          circuit = coupling_stage num_qubits num_dimensions circuit;
          circuit = phase_stage num_qubits num_dimensions circuit;
          circuit = interference_stage num_qubits num_dimensions circuit;
          circuit = circuit_measure circuit qr cr
      in Inr circuit)))"

section \<open>The simulation runner\<close>

text \<open>
  Lines 50-65. The backend is outside the program: \<open>execute\<close> stands for
  \<^verbatim>\<open>execute(circuit, Aer.get_backend('qasm_simulator'), shots=n).result().get_counts(circuit)\<close>
  and is a parameter of the model; an exception of the backend propagates.
\<close>

definition simulate_string_theory ::
  "(circuit \<Rightarrow> int \<Rightarrow> error + (string \<times> int) list) \<Rightarrow> error + (string \<times> int) list" where
  "simulate_string_theory execute =
     (case create_string_vibration_circuit 4 2 of
        Inl e \<Rightarrow> Inl e
      | Inr circuit \<Rightarrow> execute circuit 1000)"

section \<open>The result analyzer\<close>

text \<open>
  A \<^verbatim>\<open>counts\<close> dictionary is the list of its items in iteration order (the keys of a
  dictionary are distinct). \<^verbatim>\<open>max(xs, key=f)\<close> raises on an empty sequence and
  otherwise returns the first element whose key is maximal.
\<close>

fun py_max_key :: "('a \<Rightarrow> int) \<Rightarrow> 'a list \<Rightarrow> error + 'a" where
  "py_max_key key [] = Inl ValueError"
| "py_max_key key (x # xs) =
     Inr (foldl (\<lambda>best y. if key y > key best then y else best) x xs)"

definition py_max :: "int list \<Rightarrow> error + int" where
  "py_max xs = py_max_key (\<lambda>x. x) xs"

definition py_truediv :: "int \<Rightarrow> int \<Rightarrow> error + real" where
  "py_truediv a b = (if b = 0 then Inl ZeroDivisionError else Inr (real_of_int a / real_of_int b))"

record analysis =
  total_measurements :: int
  unique_states :: nat
  most_common_state :: string
  highest_probability :: real

text \<open>
  Lines 67-84. The entries of the dictionary display are evaluated in the order they are
  written, so the first exception raised is the one that leaves the function.
\<close>

definition analyze_results :: "(string \<times> int) list \<Rightarrow> error + analysis" where
  "analyze_results counts =
     (let total_shots = sum_list (map snd counts) in
      case py_max_key (\<lambda>x. snd x) counts of
        Inl e \<Rightarrow> Inl e
      | Inr item \<Rightarrow>
     (case py_max (map snd counts) of
        Inl e \<Rightarrow> Inl e
      | Inr m \<Rightarrow>
     (case py_truediv m total_shots of
        Inl e \<Rightarrow> Inl e
      | Inr p \<Rightarrow>
          Inr \<lparr>total_measurements = total_shots,
               unique_states = length counts,
               most_common_state = fst item,
               highest_probability = p\<rparr>)))"

section \<open>The specification's description of a built circuit\<close>

text \<open>
  The linear index of point \<open>site\<close> of dimension \<open>dimension\<close>. The source has no such
  function; it writes the expression \<^verbatim>\<open>i + (dim * num_qubits)\<close> at each use (lines
  28, 29, 41, 42). The theorems below relate the operands placed by the stages to it.
\<close>

definition index :: "int \<Rightarrow> int \<Rightarrow> int \<Rightarrow> int" where
  "index num_qubits dimension site = site + dimension * num_qubits"

text \<open>
  The operations the specification prescribes for each of the five stages, written
  from its words: one Hadamard for every qubit index; for each dimension and each
  pair of adjacent sites a controlled-NOT; one phase rotation by \<open>\<pi>/4\<close> for every
  qubit index; for each site (outer) and each pair of dimensions \<open>d1 < d2\<close> (inner,
  lexicographic) a controlled-phase; one measurement of every qubit into the classical
  slot of the same index.
\<close>

definition spec_superposition :: "int \<Rightarrow> int \<Rightarrow> gate list" where
  "spec_superposition num_qubits num_dimensions =
     map (\<lambda>q. H q) [0..num_qubits * num_dimensions - 1]"

definition spec_coupling :: "int \<Rightarrow> int \<Rightarrow> gate list" where
  "spec_coupling num_qubits num_dimensions =
     concat (map (\<lambda>d. map (\<lambda>i. CX (index num_qubits d i) (index num_qubits d (i + 1)))
                          [0..num_qubits - 2])
                 [0..num_dimensions - 1])"

definition spec_phase :: "int \<Rightarrow> int \<Rightarrow> gate list" where
  "spec_phase num_qubits num_dimensions =
     map (\<lambda>q. RZ (pi / 4) q) [0..num_qubits * num_dimensions - 1]"

definition spec_interference :: "int \<Rightarrow> int \<Rightarrow> gate list" where
  "spec_interference num_qubits num_dimensions =
     concat (map (\<lambda>i.
       concat (map (\<lambda>d1. map (\<lambda>d2. CZ (index num_qubits d1 i) (index num_qubits d2 i))
                             [d1 + 1..num_dimensions - 1])
                   [0..num_dimensions - 1]))
       [0..num_qubits - 1])"

definition spec_measurement :: "int \<Rightarrow> int \<Rightarrow> gate list" where
  "spec_measurement num_qubits num_dimensions =
     map (\<lambda>q. Measure q q) [0..num_qubits * num_dimensions - 1]"

text \<open>The stage of the construction an instruction kind belongs to.\<close>

fun gate_stage :: "gate \<Rightarrow> nat" where
  "gate_stage (H _) = 0"
| "gate_stage (CX _ _) = 1"
| "gate_stage (RZ _ _) = 2"
| "gate_stage (CZ _ _) = 3"
| "gate_stage (Measure _ _) = 4"

section \<open>The stages as appended blocks\<close>

lemma foldl_append_one:
  "foldl (\<lambda>c x. c\<lparr>data := data c @ [f x]\<rparr>) c xs = c\<lparr>data := data c @ map f xs\<rparr>"
  by (induction xs arbitrary: c) simp_all

lemma foldl_append_blocks:
  "foldl (\<lambda>c x. c\<lparr>data := data c @ g x\<rparr>) c xs = c\<lparr>data := data c @ concat (map g xs)\<rparr>"
  by (induction xs arbitrary: c) simp_all

lemma superposition_stage_eq:
  "superposition_stage nq nd c = c\<lparr>data := data c @ spec_superposition nq nd\<rparr>"
  by (simp add: superposition_stage_def circuit_h_def py_range_def spec_superposition_def
      foldl_append_one)

lemma phase_stage_eq:
  "phase_stage nq nd c = c\<lparr>data := data c @ spec_phase nq nd\<rparr>"
  by (simp add: phase_stage_def circuit_rz_def py_range_def spec_phase_def foldl_append_one)

lemma coupling_stage_eq:
  "coupling_stage nq nd c = c\<lparr>data := data c @ spec_coupling nq nd\<rparr>"
proof -
  have "nq - 1 - 1 = nq - 2" by simp
  then show ?thesis
    by (simp add: coupling_stage_def circuit_cx_def py_range_def spec_coupling_def index_def
      foldl_append_one foldl_append_blocks Let_def)
qed

lemma interference_empty: "nd \<le> 1 \<Longrightarrow> spec_interference nq nd = []"
proof -
  assume h: "nd \<le> 1"
  have "\<And>d1. d1 \<in> set [0..nd - 1] \<Longrightarrow> [d1 + 1..nd - 1] = []"
    using h by simp
  then show ?thesis
    by (simp add: spec_interference_def)
qed

lemma interference_stage_eq:
  "interference_stage nq nd c = c\<lparr>data := data c @ spec_interference nq nd\<rparr>"
proof (cases "1 < nd")
  case True
  then show ?thesis
    by (simp add: interference_stage_def circuit_cz_def py_range_def py_range2_def
        spec_interference_def index_def foldl_append_one foldl_append_blocks Let_def)
next
  case False
  then show ?thesis
    by (simp add: interference_stage_def interference_empty)
qed

lemma circuit_measure_eq:
  "circuit_measure c (nq * nd) (nq * nd) = c\<lparr>data := data c @ spec_measurement nq nd\<rparr>"
  by (simp add: circuit_measure_def py_range_def spec_measurement_def zip_same_conv_map)

lemma build_eq:
  assumes "0 \<le> nq * nd"
  shows "create_string_vibration_circuit nq nd =
    Inr \<lparr>qubits = nq * nd, clbits = nq * nd,
         data = spec_superposition nq nd @ spec_coupling nq nd @ spec_phase nq nd
                @ spec_interference nq nd @ spec_measurement nq nd\<rparr>"
  using assms
  by (simp add: create_string_vibration_circuit_def QuantumRegister_def ClassicalRegister_def
      QuantumCircuit_def superposition_stage_eq coupling_stage_eq phase_stage_eq
      interference_stage_eq circuit_measure_eq)

lemma build_neg:
  assumes "nq * nd < 0"
  shows "create_string_vibration_circuit nq nd = Inl CircuitError"
  using assms by (simp add: create_string_vibration_circuit_def QuantumRegister_def)

section \<open>The index mapping\<close>

lemma index_bounds:
  assumes "0 \<le> d" "d < nd" "0 \<le> i" "i < nq"
  shows "0 \<le> index nq d i" "index nq d i < nq * nd"
proof -
  have nq: "0 < nq" using assms by linarith
  show "0 \<le> index nq d i" using assms nq by (simp add: index_def)
  have "d + 1 \<le> nd" using assms by simp
  then have "(d + 1) * nq \<le> nd * nq" using nq by (intro mult_right_mono) simp_all
  then show "index nq d i < nq * nd" using assms by (simp add: index_def algebra_simps)
qed

lemma index_div:
  assumes "0 \<le> i" "i < nq"
  shows "index nq d i div nq = d" "index nq d i mod nq = i"
  using assms by (simp_all add: index_def)

lemma index_inj:
  assumes "0 \<le> i" "i < nq" "0 \<le> i'" "i' < nq" "index nq d i = index nq d' i'"
  shows "d = d' \<and> i = i'"
  using index_div[of i nq d] index_div[of i' nq d'] assms by metis

lemma index_decode:
  assumes "0 < nq" "0 \<le> x" "x < nq * nd"
  shows "0 \<le> x div nq" "x div nq < nd" "0 \<le> x mod nq" "x mod nq < nq"
    "index nq (x div nq) (x mod nq) = x"
proof -
  show "0 \<le> x div nq" using assms by (simp add: pos_imp_zdiv_nonneg_iff)
  show "0 \<le> x mod nq" "x mod nq < nq" using assms by simp_all
  show "index nq (x div nq) (x mod nq) = x" by (simp add: index_def)
  show "x div nq < nd"
  proof (rule ccontr)
    assume "\<not> x div nq < nd"
    then have "nd \<le> x div nq" by simp
    then have "nq * nd \<le> nq * (x div nq)" using assms(1) by (intro mult_left_mono) simp_all
    moreover have "nq * (x div nq) + x mod nq = x" by simp
    moreover have "0 \<le> x mod nq" using assms(1) by simp
    ultimately show False using assms(3) by linarith
  qed
qed

text \<open>
  C4: for \<open>num_qubits \<ge> 1\<close> and \<open>num_dimensions \<ge> 1\<close> the mapping
  \<open>(dimension, site) \<mapsto> site + dimension * num_qubits\<close>, on
  \<open>0 \<le> dimension < num_dimensions\<close> and \<open>0 \<le> site < num_qubits\<close>, is a bijection onto
  \<open>[0, num_qubits * num_dimensions)\<close>; with four sites per dimension it sends
  \<open>(0,0), (0,3), (1,0), (1,3)\<close> to \<open>0, 3, 4, 7\<close>.
\<close>

theorem index_bijection:
  "(1 \<le> num_qubits \<and> 1 \<le> num_dimensions \<longrightarrow>
      bij_betw (\<lambda>(dimension, site). index num_qubits dimension site)
        ({0..<num_dimensions} \<times> {0..<num_qubits}) {0..<num_qubits * num_dimensions})
   \<and> index 4 0 0 = 0 \<and> index 4 0 3 = 3 \<and> index 4 1 0 = 4 \<and> index 4 1 3 = 7"
proof (intro conjI impI)
  assume h: "1 \<le> num_qubits \<and> 1 \<le> num_dimensions"
  let ?f = "\<lambda>(dimension, site). index num_qubits dimension site"
  let ?A = "{0..<num_dimensions} \<times> {0..<num_qubits}"
  have inj: "inj_on ?f ?A"
    by (auto simp: inj_on_def dest: index_inj)
  have img: "?f ` ?A = {0..<num_qubits * num_dimensions}"
  proof (intro equalityI subsetI)
    fix x assume "x \<in> ?f ` ?A"
    then show "x \<in> {0..<num_qubits * num_dimensions}"
      using index_bounds by auto
  next
    fix x assume x: "x \<in> {0..<num_qubits * num_dimensions}"
    have nq: "0 < num_qubits" using h by simp
    from x have x0: "0 \<le> x" and x1: "x < num_qubits * num_dimensions" by simp_all
    have "(x div num_qubits, x mod num_qubits) \<in> ?A"
      using index_decode[OF nq x0 x1] by simp
    moreover have "index num_qubits (x div num_qubits) (x mod num_qubits) = x"
      using index_decode[OF nq x0 x1] by simp
    ultimately show "x \<in> ?f ` ?A"
      by force
  qed
  show "bij_betw ?f ?A {0..<num_qubits * num_dimensions}"
    using inj img by (simp add: bij_betw_def)
qed (simp_all add: index_def)

theorem index_bijection_witness:
  "bij_betw (\<lambda>(dimension, site). index 4 dimension site) ({0..<2} \<times> {0..<4}) {0..<8}"
  using index_bijection [of 4 2] by simp

section \<open>Argument checking of the builder\<close>

lemma build_zero:
  assumes "nq * nd = 0"
  shows "create_string_vibration_circuit nq nd = Inr \<lparr>qubits = 0, clbits = 0, data = []\<rparr>"
proof -
  have z: "nq = 0 \<or> nd = 0" using assms by simp
  have c: "spec_coupling nq nd = []"
    using z by (auto simp: spec_coupling_def)
  have i: "spec_interference nq nd = []"
    using z by (auto simp: spec_interference_def)
  show ?thesis
    using build_eq[of nq nd] assms c i
    by (simp add: spec_superposition_def spec_phase_def spec_measurement_def)
qed

text \<open>
  C7, as stated: a call with \<open>num_qubits < 1\<close> or \<open>num_dimensions < 1\<close> fails and returns
  no circuit. The builder has no check of its arguments. With \<open>num_qubits = 0\<close> or
  \<open>num_dimensions = 0\<close> the registers are empty, no loop body runs, and the empty circuit
  is returned; with both arguments \<open>-1\<close> the register has size \<open>1\<close>, every loop over a
  negative bound is empty, and a one-qubit circuit is returned.
\<close>

theorem build_invalid_arguments_counterexample:
  "create_string_vibration_circuit 0 2 = Inr \<lparr>qubits = 0, clbits = 0, data = []\<rparr>
   \<and> create_string_vibration_circuit 4 0 = Inr \<lparr>qubits = 0, clbits = 0, data = []\<rparr>
   \<and> create_string_vibration_circuit (- 1) (- 1) =
       Inr \<lparr>qubits = 1, clbits = 1, data = [H 0, RZ (pi / 4) 0, Measure 0 0]\<rparr>"
  by (simp add: create_string_vibration_circuit_def QuantumRegister_def ClassicalRegister_def
      QuantumCircuit_def superposition_stage_def coupling_stage_def phase_stage_def
      interference_stage_def circuit_measure_def circuit_h_def circuit_rz_def py_range_def
      py_range2_def upto.simps)

text \<open>
  C7, amended: the builder performs no validation of \<open>num_qubits\<close> or \<open>num_dimensions\<close>;
  its only failure is the register constructor's, and it fails exactly when the product
  \<open>num_qubits * num_dimensions\<close> is negative, returning no circuit, partial or other.
  When the product is zero (in particular \<open>num_qubits = 0\<close> or \<open>num_dimensions = 0\<close>) it
  returns the empty circuit on no qubits; when the product is positive, also with both
  arguments below \<open>1\<close>, it returns a circuit on that many qubits.
\<close>

theorem build_fails_only_on_negative_size:
  "(nq * nd < 0 \<longrightarrow> create_string_vibration_circuit nq nd = Inl CircuitError)
   \<and> (nq * nd = 0 \<longrightarrow>
        create_string_vibration_circuit nq nd = Inr \<lparr>qubits = 0, clbits = 0, data = []\<rparr>)
   \<and> (0 < nq * nd \<longrightarrow>
        (\<exists>c. create_string_vibration_circuit nq nd = Inr c \<and> qubits c = nq * nd))
   \<and> ((\<exists>e. create_string_vibration_circuit nq nd = Inl e) \<longleftrightarrow> nq * nd < 0)"
proof (intro conjI impI)
  show "create_string_vibration_circuit nq nd = Inl CircuitError" if "nq * nd < 0"
    using that by (rule build_neg)
  show "create_string_vibration_circuit nq nd = Inr \<lparr>qubits = 0, clbits = 0, data = []\<rparr>"
    if "nq * nd = 0"
    using that by (rule build_zero)
  show "\<exists>c. create_string_vibration_circuit nq nd = Inr c \<and> qubits c = nq * nd"
    if "0 < nq * nd"
    using that by (simp add: build_eq)
  show "(\<exists>e. create_string_vibration_circuit nq nd = Inl e) \<longleftrightarrow> nq * nd < 0"
  proof (cases "nq * nd < 0")
    case True
    then show ?thesis by (simp add: build_neg)
  next
    case False
    then have "0 \<le> nq * nd" by simp
    then show ?thesis using False by (simp add: build_eq)
  qed
qed

theorem build_fails_only_on_negative_size_witness:
  "create_string_vibration_circuit 2 (- 1) = Inl CircuitError
   \<and> create_string_vibration_circuit 0 3 = Inr \<lparr>qubits = 0, clbits = 0, data = []\<rparr>
   \<and> (\<exists>c. create_string_vibration_circuit (- 2) (- 3) = Inr c \<and> qubits c = 6)"
  using build_fails_only_on_negative_size [of 2 "- 1"]
    build_fails_only_on_negative_size [of 0 3]
    build_fails_only_on_negative_size [of "- 2" "- 3"]
  by simp

section \<open>The analyzer\<close>

lemma fold_max_key:
  "key (foldl (\<lambda>best y. if key y > key best then y else best) x xs) = Max (key ` set (x # xs))
   \<and> foldl (\<lambda>best y. if key y > key best then y else best) x xs \<in> set (x # xs)"
proof (induction xs arbitrary: x)
  case Nil
  then show ?case by simp
next
  case (Cons y ys)
  let ?b = "if key y > key x then y else x"
  have k: "key ?b = max (key x) (key y)" by (auto simp: max_def)
  have "Max (key ` set (?b # ys)) = Max (key ` set (x # y # ys))"
  proof (cases "ys = []")
    case True
    then show ?thesis using k by (simp add: max_def)
  next
    case False
    then have "Max (key ` set (?b # ys)) = max (key ?b) (Max (key ` set ys))" by simp
    also have "\<dots> = max (key x) (max (key y) (Max (key ` set ys)))"
      using k by (simp add: max.assoc)
    also have "\<dots> = Max (key ` set (x # y # ys))" using False by simp
    finally show ?thesis .
  qed
  moreover have "?b \<in> set (x # y # ys)" by simp
  ultimately show ?case using Cons.IH[of ?b] by auto
qed

lemma py_max_key_nonempty:
  assumes "xs \<noteq> []"
  shows "\<exists>m. py_max_key key xs = Inr m \<and> m \<in> set xs \<and> key m = Max (key ` set xs)"
proof -
  obtain x ys where xs: "xs = x # ys" using assms by (cases xs) auto
  show ?thesis unfolding xs using fold_max_key[of key x ys] by simp
qed

lemma py_max_nonempty:
  assumes "xs \<noteq> []"
  shows "py_max xs = Inr (Max (set xs))"
  using py_max_key_nonempty[OF assms, of "\<lambda>x. x"] by (auto simp: py_max_def)

lemma member_le_sum_list_int:
  fixes xs :: "int list"
  assumes "\<forall>x\<in>set xs. 0 \<le> x" "y \<in> set xs"
  shows "y \<le> sum_list xs"
  using assms
proof (induction xs)
  case Nil
  then show ?case by simp
next
  case (Cons a as)
  have "0 \<le> sum_list as" using Cons.prems(1) by (intro sum_list_nonneg) simp
  then show ?case using Cons by auto
qed

lemma positive_member:
  fixes xs :: "int list"
  assumes "0 < sum_list xs"
  shows "\<exists>y\<in>set xs. 0 < y"
proof (rule ccontr)
  assume "\<not> (\<exists>y\<in>set xs. 0 < y)"
  then have "\<forall>y\<in>set xs. y \<le> 0" by auto
  then have "sum_list xs \<le> 0" by (intro sum_list_nonpos) simp
  then show False using assms by simp
qed

lemma analyze_results_nonempty:
  assumes "counts \<noteq> []" "sum_list (map snd counts) \<noteq> 0"
  shows "\<exists>item. item \<in> set counts \<and> snd item = Max (snd ` set counts) \<and>
     analyze_results counts =
       Inr \<lparr>total_measurements = sum_list (map snd counts),
            unique_states = length counts,
            most_common_state = fst item,
            highest_probability =
              real_of_int (Max (snd ` set counts)) / real_of_int (sum_list (map snd counts))\<rparr>"
proof -
  obtain item where item: "py_max_key (\<lambda>x. snd x) counts = Inr item" "item \<in> set counts"
      "snd item = Max (snd ` set counts)"
    using py_max_key_nonempty[OF assms(1), of snd] by auto
  have m: "py_max (map snd counts) = Inr (Max (snd ` set counts))"
    using py_max_nonempty[of "map snd counts"] assms(1) by simp
  show ?thesis
    using item m assms(2)
    by (intro exI[of _ item]) (simp add: analyze_results_def py_truediv_def Let_def)
qed

text \<open>
  C8: on a dictionary with no entries \<^verbatim>\<open>analyze_results\<close> raises (the \<^verbatim>\<open>ValueError\<close> of
  \<^verbatim>\<open>max\<close> on an empty sequence, Python's invalid-argument exception); no analysis is
  returned.
\<close>

theorem analyze_results_empty:
  "analyze_results [] = Inl ValueError"
  by (simp add: analyze_results_def)

text \<open>
  C9: the distribution \<open>{"00": 700, "11": 300}\<close> is analysed to a total of \<open>1000\<close>, two
  states, most common state \<open>"00"\<close> and highest probability \<open>0.7\<close>; and for every
  non-empty distribution (its counts are occurrence counts, so none is negative) with a
  positive total the analysis is returned, its highest probability is the largest count
  divided by the total, and it lies in \<open>(0, 1]\<close>.
\<close>

theorem analyze_results_summary:
  "analyze_results [(''00'', 700), (''11'', 300)] =
     Inr \<lparr>total_measurements = 1000, unique_states = 2, most_common_state = ''00'',
          highest_probability = 7 / 10\<rparr>
   \<and> (counts \<noteq> [] \<and> (\<forall>(k, v) \<in> set counts. 0 \<le> v) \<and> 0 < sum_list (map snd counts) \<longrightarrow>
        (\<exists>a. analyze_results counts = Inr a
           \<and> highest_probability a =
               real_of_int (Max (snd ` set counts)) / real_of_int (sum_list (map snd counts))
           \<and> 0 < highest_probability a \<and> highest_probability a \<le> 1))"
proof (intro conjI impI)
  show "analyze_results [(''00'', 700), (''11'', 300)] =
     Inr \<lparr>total_measurements = 1000, unique_states = 2, most_common_state = ''00'',
          highest_probability = 7 / 10\<rparr>"
    by (simp add: analyze_results_def py_max_def py_truediv_def)
next
  assume h: "counts \<noteq> [] \<and> (\<forall>(k, v) \<in> set counts. 0 \<le> v) \<and> 0 < sum_list (map snd counts)"
  let ?t = "sum_list (map snd counts)" and ?m = "Max (snd ` set counts)"
  from h have ne: "counts \<noteq> []" and pos: "0 < ?t" by simp_all
  from h have nonneg: "\<forall>x\<in>set (map snd counts). 0 \<le> x" by auto
  have fin: "finite (snd ` set counts)" "snd ` set counts \<noteq> {}" using ne by simp_all
  have "?m \<in> set (map snd counts)" using Max_in[OF fin] by simp
  then have le: "?m \<le> ?t" using member_le_sum_list_int[OF nonneg] by blast
  obtain y where "y \<in> set (map snd counts)" "0 < y" using positive_member[OF pos] by blast
  then have "y \<le> ?m" using fin by (intro Max_ge) simp_all
  then have mpos: "0 < ?m" using \<open>0 < y\<close> by linarith
  obtain item where "analyze_results counts =
       Inr \<lparr>total_measurements = ?t, unique_states = length counts,
            most_common_state = fst item,
            highest_probability = real_of_int ?m / real_of_int ?t\<rparr>"
    using analyze_results_nonempty[OF ne] pos by auto
  then show "\<exists>a. analyze_results counts = Inr a
           \<and> highest_probability a = real_of_int ?m / real_of_int ?t
           \<and> 0 < highest_probability a \<and> highest_probability a \<le> 1"
    using le mpos pos by simp
qed

theorem analyze_results_summary_witness:
  "\<exists>a. analyze_results [(''01'', 2), (''10'', 6)] = Inr a
      \<and> highest_probability a = 3 / 4
      \<and> 0 < highest_probability a \<and> highest_probability a \<le> 1"
  using analyze_results_summary [of "[(''01'', 2), (''10'', 6)]"] by simp

section \<open>The simulation runner's fixed parameters\<close>

text \<open>
  C10: whatever the backend, \<^verbatim>\<open>simulate_string_theory\<close> builds the circuit of four
  points in two dimensions (the eight-qubit circuit written out below) and hands it to
  the backend with a request for \<open>1000\<close> shots; the function has no argument through which
  a caller could choose other values.
\<close>

theorem simulate_string_theory_fixed:
  "create_string_vibration_circuit 4 2 =
     Inr \<lparr>qubits = 8, clbits = 8,
       data = [H 0, H 1, H 2, H 3, H 4, H 5, H 6, H 7,
               CX 0 1, CX 1 2, CX 2 3, CX 4 5, CX 5 6, CX 6 7,
               RZ (pi / 4) 0, RZ (pi / 4) 1, RZ (pi / 4) 2, RZ (pi / 4) 3,
               RZ (pi / 4) 4, RZ (pi / 4) 5, RZ (pi / 4) 6, RZ (pi / 4) 7,
               CZ 0 4, CZ 1 5, CZ 2 6, CZ 3 7,
               Measure 0 0, Measure 1 1, Measure 2 2, Measure 3 3,
               Measure 4 4, Measure 5 5, Measure 6 6, Measure 7 7]\<rparr>
   \<and> simulate_string_theory execute =
     execute \<lparr>qubits = 8, clbits = 8,
       data = [H 0, H 1, H 2, H 3, H 4, H 5, H 6, H 7,
               CX 0 1, CX 1 2, CX 2 3, CX 4 5, CX 5 6, CX 6 7,
               RZ (pi / 4) 0, RZ (pi / 4) 1, RZ (pi / 4) 2, RZ (pi / 4) 3,
               RZ (pi / 4) 4, RZ (pi / 4) 5, RZ (pi / 4) 6, RZ (pi / 4) 7,
               CZ 0 4, CZ 1 5, CZ 2 6, CZ 3 7,
               Measure 0 0, Measure 1 1, Measure 2 2, Measure 3 3,
               Measure 4 4, Measure 5 5, Measure 6 6, Measure 7 7]\<rparr> 1000"
proof -
  have "create_string_vibration_circuit 4 2 =
     Inr \<lparr>qubits = 8, clbits = 8,
       data = [H 0, H 1, H 2, H 3, H 4, H 5, H 6, H 7,
               CX 0 1, CX 1 2, CX 2 3, CX 4 5, CX 5 6, CX 6 7,
               RZ (pi / 4) 0, RZ (pi / 4) 1, RZ (pi / 4) 2, RZ (pi / 4) 3,
               RZ (pi / 4) 4, RZ (pi / 4) 5, RZ (pi / 4) 6, RZ (pi / 4) 7,
               CZ 0 4, CZ 1 5, CZ 2 6, CZ 3 7,
               Measure 0 0, Measure 1 1, Measure 2 2, Measure 3 3,
               Measure 4 4, Measure 5 5, Measure 6 6, Measure 7 7]\<rparr>"
    by (simp add: create_string_vibration_circuit_def QuantumRegister_def ClassicalRegister_def
        QuantumCircuit_def superposition_stage_def coupling_stage_def phase_stage_def
        interference_stage_def circuit_measure_def circuit_h_def circuit_cx_def circuit_rz_def
        circuit_cz_def py_range_def py_range2_def upto.simps)
  then show ?thesis
    by (simp add: simulate_string_theory_def)
qed

section \<open>The instruction kinds of the five blocks\<close>

lemma stage_superposition: "g \<in> set (spec_superposition nq nd) \<Longrightarrow> \<exists>q. g = H q"
  by (auto simp: spec_superposition_def)

lemma stage_coupling: "g \<in> set (spec_coupling nq nd) \<Longrightarrow> \<exists>a b. g = CX a b"
  by (auto simp: spec_coupling_def)

lemma stage_phase: "g \<in> set (spec_phase nq nd) \<Longrightarrow> \<exists>q. g = RZ (pi / 4) q"
  by (auto simp: spec_phase_def)

lemma stage_interference: "g \<in> set (spec_interference nq nd) \<Longrightarrow> \<exists>a b. g = CZ a b"
  by (auto simp: spec_interference_def)

lemma stage_measurement: "g \<in> set (spec_measurement nq nd) \<Longrightarrow> \<exists>q. g = Measure q q"
  by (auto simp: spec_measurement_def)

lemma filter_stage_superposition:
  "filter (\<lambda>g. gate_stage g = k) (spec_superposition nq nd) =
     (if k = 0 then spec_superposition nq nd else [])"
proof -
  have "\<forall>g\<in>set (spec_superposition nq nd). gate_stage g = 0"
    using stage_superposition by fastforce
  then show ?thesis
    by (cases "k = 0") (simp_all add: filter_empty_conv)
qed

lemma filter_stage_coupling:
  "filter (\<lambda>g. gate_stage g = k) (spec_coupling nq nd) =
     (if k = 1 then spec_coupling nq nd else [])"
proof -
  have "\<forall>g\<in>set (spec_coupling nq nd). gate_stage g = 1"
    using stage_coupling by fastforce
  then show ?thesis
    by (cases "k = 1") (simp_all add: filter_empty_conv)
qed

lemma filter_stage_phase:
  "filter (\<lambda>g. gate_stage g = k) (spec_phase nq nd) =
     (if k = 2 then spec_phase nq nd else [])"
proof -
  have "\<forall>g\<in>set (spec_phase nq nd). gate_stage g = 2"
    using stage_phase by fastforce
  then show ?thesis
    by (cases "k = 2") (simp_all add: filter_empty_conv)
qed

lemma filter_stage_interference:
  "filter (\<lambda>g. gate_stage g = k) (spec_interference nq nd) =
     (if k = 3 then spec_interference nq nd else [])"
proof -
  have "\<forall>g\<in>set (spec_interference nq nd). gate_stage g = 3"
    using stage_interference by fastforce
  then show ?thesis
    by (cases "k = 3") (simp_all add: filter_empty_conv)
qed

lemma filter_stage_measurement:
  "filter (\<lambda>g. gate_stage g = k) (spec_measurement nq nd) =
     (if k = 4 then spec_measurement nq nd else [])"
proof -
  have "\<forall>g\<in>set (spec_measurement nq nd). gate_stage g = 4"
    using stage_measurement by fastforce
  then show ?thesis
    by (cases "k = 4") (simp_all add: filter_empty_conv)
qed

lemmas filter_stage =
  filter_stage_superposition filter_stage_coupling filter_stage_phase
  filter_stage_interference filter_stage_measurement

section \<open>The coupling stage\<close>

lemma length_spec_coupling:
  "length (spec_coupling nq nd) = nat nd * nat (nq - 1)"
  by (simp add: spec_coupling_def length_concat comp_def sum_list_triv)

lemma spec_coupling_product:
  "spec_coupling nq nd =
     map (\<lambda>(d, i). CX (index nq d i) (index nq d (i + 1)))
       (List.product [0..nd - 1] [0..nq - 2])"
  by (simp add: spec_coupling_def product_concat_map map_concat comp_def)

lemma distinct_spec_coupling: "distinct (spec_coupling nq nd)"
proof -
  have "inj_on (\<lambda>(d, i). CX (index nq d i) (index nq d (i + 1)))
          (set (List.product [0..nd - 1] [0..nq - 2]))"
  proof (rule inj_onI)
    fix p q
    assume p: "p \<in> set (List.product [0..nd - 1] [0..nq - 2])"
      and q: "q \<in> set (List.product [0..nd - 1] [0..nq - 2])"
      and e: "(case p of (d, i) \<Rightarrow> CX (index nq d i) (index nq d (i + 1))) =
              (case q of (d, i) \<Rightarrow> CX (index nq d i) (index nq d (i + 1)))"
    obtain d i where pd: "p = (d, i)" by (cases p)
    obtain d' i' where qd: "q = (d', i')" by (cases q)
    from p q have r: "0 \<le> i" "i < nq" "0 \<le> i'" "i' < nq" by (simp_all add: pd qd)
    from e have "index nq d i = index nq d' i'" by (simp add: pd qd)
    then have "d = d' \<and> i = i'" using index_inj[OF r] by simp
    then show "p = q" by (simp add: pd qd)
  qed
  then show ?thesis
    by (simp add: spec_coupling_product distinct_map distinct_product)
qed

lemma set_spec_coupling:
  "set (spec_coupling nq nd) =
     {CX (index nq d i) (index nq d (i + 1)) | d i. 0 \<le> d \<and> d < nd \<and> 0 \<le> i \<and> i + 1 < nq}"
proof -
  have "\<And>i. (i \<le> nq - 2) = (i + 1 < nq)" by linarith
  then show ?thesis
    by (auto simp: spec_coupling_def) blast
qed

text \<open>
  C1: for \<open>num_qubits \<ge> 1\<close> and \<open>num_dimensions \<ge> 1\<close> the coupling stage appends, and
  the built circuit's controlled-NOT operations are, exactly the operations
  \<open>CX (index d i) (index d (i + 1))\<close> for each dimension \<open>d\<close> in ascending order and
  within it each site \<open>i\<close> of \<open>[0, num_qubits - 1)\<close> in ascending order: there are
  \<open>num_dimensions * (num_qubits - 1)\<close> of them, no pair occurs twice, every adjacent
  pair of every dimension occurs, and control and target (the next index) always lie in
  the same dimension.
\<close>

theorem coupling_stage_pairs:
  assumes "1 \<le> num_qubits" and "1 \<le> num_dimensions"
  shows "coupling_stage num_qubits num_dimensions c =
           c\<lparr>data := data c @ spec_coupling num_qubits num_dimensions\<rparr>
       \<and> (\<exists>built. create_string_vibration_circuit num_qubits num_dimensions = Inr built
             \<and> filter (\<lambda>g. gate_stage g = 1) (data built) =
                 spec_coupling num_qubits num_dimensions)
       \<and> length (spec_coupling num_qubits num_dimensions) =
           nat (num_dimensions * (num_qubits - 1))
       \<and> distinct (spec_coupling num_qubits num_dimensions)
       \<and> set (spec_coupling num_qubits num_dimensions) =
           {CX (index num_qubits d i) (index num_qubits d (i + 1)) | d i.
              0 \<le> d \<and> d < num_dimensions \<and> 0 \<le> i \<and> i + 1 < num_qubits}
       \<and> (\<forall>a b. CX a b \<in> set (spec_coupling num_qubits num_dimensions) \<longrightarrow>
             b = a + 1 \<and> a div num_qubits = b div num_qubits
             \<and> 0 \<le> a div num_qubits \<and> a div num_qubits < num_dimensions)"
proof (intro conjI)
  show "coupling_stage num_qubits num_dimensions c =
           c\<lparr>data := data c @ spec_coupling num_qubits num_dimensions\<rparr>"
    by (rule coupling_stage_eq)
  have "0 \<le> num_qubits * num_dimensions" using assms by simp
  then show "\<exists>built. create_string_vibration_circuit num_qubits num_dimensions = Inr built
             \<and> filter (\<lambda>g. gate_stage g = 1) (data built) =
                 spec_coupling num_qubits num_dimensions"
    by (simp add: build_eq filter_stage)
  show "length (spec_coupling num_qubits num_dimensions) =
           nat (num_dimensions * (num_qubits - 1))"
    using assms by (simp add: length_spec_coupling nat_mult_distrib)
  show "distinct (spec_coupling num_qubits num_dimensions)"
    by (rule distinct_spec_coupling)
  show "set (spec_coupling num_qubits num_dimensions) =
           {CX (index num_qubits d i) (index num_qubits d (i + 1)) | d i.
              0 \<le> d \<and> d < num_dimensions \<and> 0 \<le> i \<and> i + 1 < num_qubits}"
    by (rule set_spec_coupling)
  show "\<forall>a b. CX a b \<in> set (spec_coupling num_qubits num_dimensions) \<longrightarrow>
             b = a + 1 \<and> a div num_qubits = b div num_qubits
             \<and> 0 \<le> a div num_qubits \<and> a div num_qubits < num_dimensions"
  proof (intro allI impI)
    fix a b assume "CX a b \<in> set (spec_coupling num_qubits num_dimensions)"
    then obtain d i where di: "0 \<le> d" "d < num_dimensions" "0 \<le> i" "i + 1 < num_qubits"
        and a: "a = index num_qubits d i" and b: "b = index num_qubits d (i + 1)"
      unfolding set_spec_coupling by auto
    have "a div num_qubits = d" "b div num_qubits = d"
      unfolding a b using di by (simp_all add: index_div)
    moreover have "b = a + 1" unfolding a b by (simp add: index_def)
    ultimately show "b = a + 1 \<and> a div num_qubits = b div num_qubits
             \<and> 0 \<le> a div num_qubits \<and> a div num_qubits < num_dimensions"
      using di by simp
  qed
qed

theorem coupling_stage_pairs_witness:
  "coupling_stage 4 2 \<lparr>qubits = 8, clbits = 8, data = []\<rparr> =
      \<lparr>qubits = 8, clbits = 8, data = [CX 0 1, CX 1 2, CX 2 3, CX 4 5, CX 5 6, CX 6 7]\<rparr>
   \<and> length (spec_coupling 4 2) = 6 \<and> distinct (spec_coupling 4 2)"
  using coupling_stage_pairs [of 4 2 "\<lparr>qubits = 8, clbits = 8, data = []\<rparr>"]
  by (simp add: spec_coupling_def index_def upto.simps)


section \<open>The interference stage\<close>

lemma dimension_pairs_count:
  "sum_list (map (\<lambda>d1. nat (int n - 1 - d1)) [0..int n - 1]) = n choose 2"
proof (induction n)
  case 0
  then show ?case by simp
next
  case (Suc n)
  have split: "[0..int (Suc n) - 1] = [0..int n - 1] @ [int n]"
    using upto_rec2[of 0 "int n"] by simp
  have e: "map (\<lambda>d1. nat (int (Suc n) - 1 - d1)) [0..int n - 1] =
        map (\<lambda>d1. nat (int n - 1 - d1) + 1) [0..int n - 1]"
    by (rule map_cong) auto
  have "sum_list (map (\<lambda>d1. nat (int (Suc n) - 1 - d1)) [0..int (Suc n) - 1]) =
        sum_list (map (\<lambda>d1. nat (int (Suc n) - 1 - d1)) [0..int n - 1])"
    unfolding split by simp
  also have "\<dots> = sum_list (map (\<lambda>d1. nat (int n - 1 - d1) + 1) [0..int n - 1])"
    by (simp only: e)
  also have "\<dots> = sum_list (map (\<lambda>d1. nat (int n - 1 - d1)) [0..int n - 1])
        + sum_list (map (\<lambda>d1. 1) [0..int n - 1])"
    by (rule sum_list_addf)
  also have "\<dots> = sum_list (map (\<lambda>d1. nat (int n - 1 - d1)) [0..int n - 1]) + n"
    by (simp add: sum_list_triv)
  also have "\<dots> = (n choose 2) + n"
    by (simp only: Suc.IH)
  also have "\<dots> = Suc n choose 2"
    by (simp add: numeral_2_eq_2)
  finally show ?case .
qed

lemma length_spec_interference:
  "length (spec_interference nq nd) = nat nq * (nat nd choose 2)"
proof -
  have inner: "sum_list (map (\<lambda>d1. nat (nd - 1 - d1)) [0..nd - 1]) = nat nd choose 2"
  proof (cases "0 \<le> nd")
    case True
    then show ?thesis using dimension_pairs_count[of "nat nd"] by simp
  next
    case False
    then show ?thesis by simp
  qed
  have "\<And>d1. nat (nd - 1 - (d1 + 1) + 1) = nat (nd - 1 - d1)" by simp
  then show ?thesis
    by (simp add: spec_interference_def length_concat comp_def sum_list_triv inner)
qed

lemma set_spec_interference:
  "set (spec_interference nq nd) =
     {CZ (index nq d1 i) (index nq d2 i) | i d1 d2.
        0 \<le> i \<and> i < nq \<and> 0 \<le> d1 \<and> d1 < d2 \<and> d2 < nd}"
  (is "?L = ?R")
proof (intro equalityI subsetI)
  fix g assume "g \<in> ?L"
  then obtain i d1 d2 where "0 \<le> i" "i \<le> nq - 1" "0 \<le> d1" "d1 + 1 \<le> d2" "d2 \<le> nd - 1"
      "g = CZ (index nq d1 i) (index nq d2 i)"
    by (auto simp: spec_interference_def)
  then have "g = CZ (index nq d1 i) (index nq d2 i) \<and>
        0 \<le> i \<and> i < nq \<and> 0 \<le> d1 \<and> d1 < d2 \<and> d2 < nd"
    by simp
  then show "g \<in> ?R" by blast
next
  fix g assume "g \<in> ?R"
  then obtain i d1 d2 where g: "g = CZ (index nq d1 i) (index nq d2 i)"
      and r: "0 \<le> i" "i < nq" "0 \<le> d1" "d1 < d2" "d2 < nd"
    by blast
  have "i \<in> set [0..nq - 1]" "d1 \<in> set [0..nd - 1]" "d2 \<in> set [d1 + 1..nd - 1]"
    using r by simp_all
  then show "g \<in> ?L"
    unfolding g spec_interference_def by (simp del: set_upto) blast
qed

lemma filter_upto_greater:
  assumes "l \<le> a + 1"
  shows "filter (\<lambda>x. a < x) [l..n] = [a + 1..n]"
proof (cases "a + 1 \<le> n")
  case True
  have "[l..n] = [l..a + 1 - 1] @ [a + 1..n]"
    using assms True by (rule upto_split1)
  then show ?thesis by (simp add: filter_empty_conv)
next
  case False
  then show ?thesis by (simp add: filter_empty_conv)
qed

lemma filter_product:
  "filter (\<lambda>(x, y). P x y) (List.product xs ys) =
     concat (map (\<lambda>x. map (Pair x) (filter (P x) ys)) xs)"
  by (induction xs) (simp_all add: filter_map comp_def)

lemma spec_interference_lexicographic:
  "spec_interference nq nd =
     map (\<lambda>(i, d1, d2). CZ (index nq d1 i) (index nq d2 i))
       (filter (\<lambda>(i, d1, d2). d1 < d2)
          (List.product [0..nq - 1] (List.product [0..nd - 1] [0..nd - 1])))"
proof -
  have pairs: "filter (\<lambda>(d1, d2). d1 < d2) (List.product [0..nd - 1] [0..nd - 1]) =
      concat (map (\<lambda>d1. map (Pair d1) [d1 + 1..nd - 1]) [0..nd - 1])"
    unfolding filter_product
    by (rule arg_cong[where f = concat], rule map_cong) (simp_all add: filter_upto_greater)
  have "filter (\<lambda>(i, d1, d2). d1 < d2)
          (List.product [0..nq - 1] (List.product [0..nd - 1] [0..nd - 1])) =
        concat (map (\<lambda>i. map (Pair i)
          (concat (map (\<lambda>d1. map (Pair d1) [d1 + 1..nd - 1]) [0..nd - 1]))) [0..nq - 1])"
    by (simp only: filter_product[of "\<lambda>i p. case p of (d1, d2) \<Rightarrow> d1 < d2"] pairs)
  then show ?thesis
    by (simp add: spec_interference_def map_concat comp_def)
qed


text \<open>
  C2: for \<open>num_qubits \<ge> 1\<close> (and \<open>num_dimensions \<ge> 1\<close>) the interference stage appends,
  and the built circuit's controlled-phase operations are, the operations
  \<open>CZ (index d1 i) (index d2 i)\<close> with \<open>d1 < d2\<close> and a shared site \<open>i\<close>: there are
  \<open>num_qubits * C(num_dimensions, 2)\<close> of them when \<open>num_dimensions > 1\<close> and none when
  \<open>num_dimensions = 1\<close>; they are enumerated with the site outermost and ascending, and
  within a site the pairs \<open>(d1, d2)\<close> in ascending lexicographic order (the triples
  \<open>(i, d1, d2)\<close> of the lexicographically ordered product that satisfy \<open>d1 < d2\<close>).
\<close>

theorem interference_stage_pairs:
  assumes "1 \<le> num_qubits" and "1 \<le> num_dimensions"
  shows "interference_stage num_qubits num_dimensions c =
           c\<lparr>data := data c @ spec_interference num_qubits num_dimensions\<rparr>
       \<and> (\<exists>built. create_string_vibration_circuit num_qubits num_dimensions = Inr built
             \<and> filter (\<lambda>g. gate_stage g = 3) (data built) =
                 spec_interference num_qubits num_dimensions)
       \<and> (1 < num_dimensions \<longrightarrow>
             length (spec_interference num_qubits num_dimensions) =
               nat num_qubits * (nat num_dimensions choose 2))
       \<and> (num_dimensions = 1 \<longrightarrow>
             length (spec_interference num_qubits num_dimensions) = 0)
       \<and> set (spec_interference num_qubits num_dimensions) =
           {CZ (index num_qubits d1 i) (index num_qubits d2 i) | i d1 d2.
              0 \<le> i \<and> i < num_qubits \<and> 0 \<le> d1 \<and> d1 < d2 \<and> d2 < num_dimensions}
       \<and> spec_interference num_qubits num_dimensions =
           map (\<lambda>(i, d1, d2). CZ (index num_qubits d1 i) (index num_qubits d2 i))
             (filter (\<lambda>(i, d1, d2). d1 < d2)
                (List.product [0..num_qubits - 1]
                   (List.product [0..num_dimensions - 1] [0..num_dimensions - 1])))"
proof (intro conjI impI)
  show "interference_stage num_qubits num_dimensions c =
           c\<lparr>data := data c @ spec_interference num_qubits num_dimensions\<rparr>"
    by (rule interference_stage_eq)
  have "0 \<le> num_qubits * num_dimensions" using assms by simp
  then show "\<exists>built. create_string_vibration_circuit num_qubits num_dimensions = Inr built
             \<and> filter (\<lambda>g. gate_stage g = 3) (data built) =
                 spec_interference num_qubits num_dimensions"
    by (simp add: build_eq filter_stage)
  show "length (spec_interference num_qubits num_dimensions) =
               nat num_qubits * (nat num_dimensions choose 2)"
    by (rule length_spec_interference)
  show "length (spec_interference num_qubits num_dimensions) = 0" if "num_dimensions = 1"
    using that by (simp add: interference_empty)
  show "set (spec_interference num_qubits num_dimensions) =
           {CZ (index num_qubits d1 i) (index num_qubits d2 i) | i d1 d2.
              0 \<le> i \<and> i < num_qubits \<and> 0 \<le> d1 \<and> d1 < d2 \<and> d2 < num_dimensions}"
    by (rule set_spec_interference)
  show "spec_interference num_qubits num_dimensions =
           map (\<lambda>(i, d1, d2). CZ (index num_qubits d1 i) (index num_qubits d2 i))
             (filter (\<lambda>(i, d1, d2). d1 < d2)
                (List.product [0..num_qubits - 1]
                   (List.product [0..num_dimensions - 1] [0..num_dimensions - 1])))"
    by (rule spec_interference_lexicographic)
qed

theorem interference_stage_pairs_witness:
  "interference_stage 2 3 \<lparr>qubits = 6, clbits = 6, data = []\<rparr> =
      \<lparr>qubits = 6, clbits = 6,
       data = [CZ 0 2, CZ 0 4, CZ 2 4, CZ 1 3, CZ 1 5, CZ 3 5]\<rparr>
   \<and> length (spec_interference 2 3) = 2 * (3 choose 2)
   \<and> length (spec_interference 2 1) = 0"
  using interference_stage_pairs [of 2 3 "\<lparr>qubits = 6, clbits = 6, data = []\<rparr>"]
    interference_stage_pairs [of 2 1 "\<lparr>qubits = 6, clbits = 6, data = []\<rparr>"]
  by (simp add: spec_interference_def index_def upto.simps)

section \<open>The measurement stage\<close>

lemma filter_within_stage:
  assumes "\<And>g. P g \<Longrightarrow> gate_stage g = k"
  shows "filter P xs = filter P (filter (\<lambda>g. gate_stage g = k) xs)"
  using assms by (auto intro: filter_cong)

lemma length_filter_eq_upto:
  "length (filter (\<lambda>i. i = q) [a..b]) = (if a \<le> q \<and> q \<le> b then 1 else 0)"
proof -
  have "{x. x = q} \<inter> set [a..b] = (if a \<le> q \<and> q \<le> b then {q} else {})"
    by auto
  then show ?thesis
    by (simp add: distinct_length_filter)
qed

lemma sorted_wrt_all:
  assumes "\<forall>x\<in>set xs. \<forall>y\<in>set xs. P x y"
  shows "sorted_wrt P xs"
  using assms by (induction xs) auto

text \<open>
  C3: for \<open>num_qubits \<ge> 1\<close> and \<open>num_dimensions \<ge> 1\<close> the built circuit contains exactly
  \<open>Q = num_qubits * num_dimensions\<close> measurement operations, the measurement of qubit
  \<open>q\<close> into classical slot \<open>q\<close> for \<open>q = 0, \<dots>, Q - 1\<close>: every qubit index of \<open>[0, Q)\<close>
  is measured exactly once, and every measurement is of such a qubit into the slot of
  the same index.
\<close>

theorem build_measures_every_qubit_once:
  assumes "1 \<le> num_qubits" and "1 \<le> num_dimensions"
  shows "\<exists>built. create_string_vibration_circuit num_qubits num_dimensions = Inr built
       \<and> filter (\<lambda>g. gate_stage g = 4) (data built) =
           map (\<lambda>q. Measure q q) [0..num_qubits * num_dimensions - 1]
       \<and> length (filter (\<lambda>g. gate_stage g = 4) (data built)) =
           nat (num_qubits * num_dimensions)
       \<and> (\<forall>q. 0 \<le> q \<and> q < num_qubits * num_dimensions \<longrightarrow>
             length (filter (\<lambda>g. \<exists>b. g = Measure q b) (data built)) = 1
             \<and> Measure q q \<in> set (data built))
       \<and> (\<forall>q b. Measure q b \<in> set (data built) \<longrightarrow>
             0 \<le> q \<and> q < num_qubits * num_dimensions \<and> b = q)"
proof -
  let ?Q = "num_qubits * num_dimensions"
  let ?built = "\<lparr>qubits = ?Q, clbits = ?Q,
         data = spec_superposition num_qubits num_dimensions
              @ spec_coupling num_qubits num_dimensions
              @ spec_phase num_qubits num_dimensions
              @ spec_interference num_qubits num_dimensions
              @ spec_measurement num_qubits num_dimensions\<rparr>"
  have Q: "0 \<le> ?Q" using assms by simp
  have b: "create_string_vibration_circuit num_qubits num_dimensions = Inr ?built"
    using Q by (rule build_eq)
  have f: "filter (\<lambda>g. gate_stage g = 4) (data ?built) =
           map (\<lambda>q. Measure q q) [0..?Q - 1]"
    by (simp add: filter_stage) (simp add: spec_measurement_def)
  have l: "length (filter (\<lambda>g. gate_stage g = 4) (data ?built)) = nat ?Q"
    unfolding f using Q by simp
  have once: "length (filter (\<lambda>g. \<exists>b. g = Measure q b) (data ?built)) =
        (if 0 \<le> q \<and> q \<le> ?Q - 1 then 1 else 0)" for q
  proof -
    have "filter (\<lambda>g. \<exists>b. g = Measure q b) (data ?built) =
          filter (\<lambda>g. \<exists>b. g = Measure q b) (filter (\<lambda>g. gate_stage g = 4) (data ?built))"
      by (rule filter_within_stage) auto
    also have "\<dots> =
          filter (\<lambda>g. \<exists>b. g = Measure q b) (map (\<lambda>q. Measure q q) [0..?Q - 1])"
      by (simp only: f)
    also have "\<dots> = map (\<lambda>q. Measure q q) (filter (\<lambda>i. i = q) [0..?Q - 1])"
      by (simp add: filter_map comp_def)
    finally show ?thesis
      by (simp add: length_filter_eq_upto)
  qed
  have mem: "Measure q b \<in> set (data ?built) \<longleftrightarrow> 0 \<le> q \<and> q < ?Q \<and> b = q" for q b
    by (auto simp: spec_superposition_def spec_coupling_def spec_phase_def
        spec_interference_def spec_measurement_def)
  show ?thesis
    apply (rule exI[of _ ?built])
    apply (intro conjI allI impI)
    subgoal by (rule b)
    subgoal by (rule f)
    subgoal by (rule l)
    subgoal for q using once[of q] by simp
    subgoal for q using mem[of q q] by simp
    subgoal for q b using mem[of q b] by simp
    subgoal for q b using mem[of q b] by simp
    subgoal for q b using mem[of q b] by simp
    done
qed

theorem build_measures_every_qubit_once_witness:
  "\<exists>built. create_string_vibration_circuit 2 2 = Inr built
     \<and> filter (\<lambda>g. gate_stage g = 4) (data built) =
         [Measure 0 0, Measure 1 1, Measure 2 2, Measure 3 3]
     \<and> length (filter (\<lambda>g. \<exists>b. g = Measure 3 b) (data built)) = 1"
  using build_measures_every_qubit_once [of 2 2]
  by (auto simp: upto.simps)


section \<open>The order of the stages\<close>

text \<open>
  C5: for \<open>num_qubits \<ge> 1\<close> and \<open>num_dimensions \<ge> 1\<close> the instruction list of the built
  circuit is five contiguous blocks in this order: what the superposition stage appends
  (Hadamards only), what the coupling stage appends (controlled-NOTs only), what the
  phase stage appends (phase rotations only), what the interference stage appends
  (controlled-phases only), and the measurements; no instruction of a later stage stands
  before an instruction of an earlier one.
\<close>

theorem build_stage_order:
  assumes "1 \<le> num_qubits" and "1 \<le> num_dimensions"
  shows "\<exists>built hs cxs rzs czs ms.
           create_string_vibration_circuit num_qubits num_dimensions = Inr built
         \<and> data built = hs @ cxs @ rzs @ czs @ ms
         \<and> hs = data (superposition_stage num_qubits num_dimensions
                        \<lparr>qubits = 0, clbits = 0, data = []\<rparr>)
         \<and> cxs = data (coupling_stage num_qubits num_dimensions
                        \<lparr>qubits = 0, clbits = 0, data = []\<rparr>)
         \<and> rzs = data (phase_stage num_qubits num_dimensions
                        \<lparr>qubits = 0, clbits = 0, data = []\<rparr>)
         \<and> czs = data (interference_stage num_qubits num_dimensions
                        \<lparr>qubits = 0, clbits = 0, data = []\<rparr>)
         \<and> (\<forall>g\<in>set hs. \<exists>q. g = H q)
         \<and> (\<forall>g\<in>set cxs. \<exists>a b. g = CX a b)
         \<and> (\<forall>g\<in>set rzs. \<exists>t q. g = RZ t q)
         \<and> (\<forall>g\<in>set czs. \<exists>a b. g = CZ a b)
         \<and> (\<forall>g\<in>set ms. \<exists>q b. g = Measure q b)
         \<and> (\<forall>i j. i < j \<and> j < length (data built) \<longrightarrow>
               gate_stage (data built ! i) \<le> gate_stage (data built ! j))"
proof -
  let ?Q = "num_qubits * num_dimensions"
  let ?hs = "spec_superposition num_qubits num_dimensions"
  let ?cxs = "spec_coupling num_qubits num_dimensions"
  let ?rzs = "spec_phase num_qubits num_dimensions"
  let ?czs = "spec_interference num_qubits num_dimensions"
  let ?ms = "spec_measurement num_qubits num_dimensions"
  let ?built = "\<lparr>qubits = ?Q, clbits = ?Q, data = ?hs @ ?cxs @ ?rzs @ ?czs @ ?ms\<rparr>"
  have Q: "0 \<le> ?Q" using assms by simp
  have b: "create_string_vibration_circuit num_qubits num_dimensions = Inr ?built"
    using Q by (rule build_eq)
  have k0: "\<forall>g\<in>set ?hs. gate_stage g = 0" using stage_superposition by fastforce
  have k1: "\<forall>g\<in>set ?cxs. gate_stage g = 1" using stage_coupling by fastforce
  have k2: "\<forall>g\<in>set ?rzs. gate_stage g = 2" using stage_phase by fastforce
  have k3: "\<forall>g\<in>set ?czs. gate_stage g = 3" using stage_interference by fastforce
  have k4: "\<forall>g\<in>set ?ms. gate_stage g = 4" using stage_measurement by fastforce
  have "sorted_wrt (\<lambda>a b. gate_stage a \<le> gate_stage b) (?hs @ ?cxs @ ?rzs @ ?czs @ ?ms)"
    using k0 k1 k2 k3 k4 by (auto simp: sorted_wrt_append intro!: sorted_wrt_all)
  then have ord: "\<forall>i j. i < j \<and> j < length (data ?built) \<longrightarrow>
               gate_stage (data ?built ! i) \<le> gate_stage (data ?built ! j)"
    by (simp add: sorted_wrt_iff_nth_less)
  show ?thesis
    apply (rule exI[of _ ?built], rule exI[of _ ?hs], rule exI[of _ ?cxs],
        rule exI[of _ ?rzs], rule exI[of _ ?czs], rule exI[of _ ?ms])
    apply (intro conjI)
    subgoal by (rule b)
    subgoal by simp
    subgoal by (simp add: superposition_stage_eq)
    subgoal by (simp add: coupling_stage_eq)
    subgoal by (simp add: phase_stage_eq)
    subgoal by (simp add: interference_stage_eq)
    subgoal using stage_superposition by blast
    subgoal using stage_coupling by blast
    subgoal using stage_phase by blast
    subgoal using stage_interference by blast
    subgoal using stage_measurement by blast
    subgoal by (rule ord)
    done
qed

theorem build_stage_order_witness:
  "\<exists>built. create_string_vibration_circuit 2 2 = Inr built
     \<and> data built = [H 0, H 1, H 2, H 3] @ [CX 0 1, CX 2 3]
          @ [RZ (pi / 4) 0, RZ (pi / 4) 1, RZ (pi / 4) 2, RZ (pi / 4) 3]
          @ [CZ 0 2, CZ 1 3] @ [Measure 0 0, Measure 1 1, Measure 2 2, Measure 3 3]
     \<and> gate_stage (data built ! 5) \<le> gate_stage (data built ! 6)"
proof -
  obtain built hs cxs rzs czs ms where
    b: "create_string_vibration_circuit 2 2 = Inr built"
    and d: "data built = hs @ cxs @ rzs @ czs @ ms"
    and hs: "hs = data (superposition_stage 2 2 \<lparr>qubits = 0, clbits = 0, data = []\<rparr>)"
    and cxs: "cxs = data (coupling_stage 2 2 \<lparr>qubits = 0, clbits = 0, data = []\<rparr>)"
    and rzs: "rzs = data (phase_stage 2 2 \<lparr>qubits = 0, clbits = 0, data = []\<rparr>)"
    and czs: "czs = data (interference_stage 2 2 \<lparr>qubits = 0, clbits = 0, data = []\<rparr>)"
    and ord: "\<forall>i j. i < j \<and> j < length (data built) \<longrightarrow>
               gate_stage (data built ! i) \<le> gate_stage (data built ! j)"
    using build_stage_order [of 2 2] by auto
  have v: "create_string_vibration_circuit 2 2 =
      Inr \<lparr>qubits = 4, clbits = 4,
           data = [H 0, H 1, H 2, H 3, CX 0 1, CX 2 3,
                   RZ (pi / 4) 0, RZ (pi / 4) 1, RZ (pi / 4) 2, RZ (pi / 4) 3,
                   CZ 0 2, CZ 1 3, Measure 0 0, Measure 1 1, Measure 2 2, Measure 3 3]\<rparr>"
    by (simp add: create_string_vibration_circuit_def QuantumRegister_def ClassicalRegister_def
        QuantumCircuit_def superposition_stage_def coupling_stage_def phase_stage_def
        interference_stage_def circuit_measure_def circuit_h_def circuit_cx_def circuit_rz_def
        circuit_cz_def py_range_def py_range2_def upto.simps)
  have bv: "data built = [H 0, H 1, H 2, H 3, CX 0 1, CX 2 3,
                   RZ (pi / 4) 0, RZ (pi / 4) 1, RZ (pi / 4) 2, RZ (pi / 4) 3,
                   CZ 0 2, CZ 1 3, Measure 0 0, Measure 1 1, Measure 2 2, Measure 3 3]"
    using b v by auto
  have "(5::nat) < 6 \<and> 6 < length (data built)" by (simp add: bv)
  then have "gate_stage (data built ! 5) \<le> gate_stage (data built ! 6)"
    using ord by blast
  then show ?thesis using b bv by simp
qed

section \<open>The phase stage\<close>

text \<open>
  C6: for \<open>num_qubits \<ge> 1\<close> and \<open>num_dimensions \<ge> 1\<close> the phase stage appends, and the
  built circuit's phase rotations are, one rotation for each qubit index of \<open>[0, Q)\<close> in
  ascending order, each qubit exactly once and each with the same angle \<open>\<pi>/4\<close>,
  whatever the index or dimension of the qubit.
\<close>

theorem phase_stage_uniform:
  assumes "1 \<le> num_qubits" and "1 \<le> num_dimensions"
  shows "phase_stage num_qubits num_dimensions c =
           c\<lparr>data := data c @ map (\<lambda>q. RZ (pi / 4) q) [0..num_qubits * num_dimensions - 1]\<rparr>
       \<and> (\<exists>built. create_string_vibration_circuit num_qubits num_dimensions = Inr built
             \<and> filter (\<lambda>g. gate_stage g = 2) (data built) =
                 map (\<lambda>q. RZ (pi / 4) q) [0..num_qubits * num_dimensions - 1]
             \<and> length (filter (\<lambda>g. gate_stage g = 2) (data built)) =
                 nat (num_qubits * num_dimensions)
             \<and> (\<forall>q. 0 \<le> q \<and> q < num_qubits * num_dimensions \<longrightarrow>
                   length (filter (\<lambda>g. \<exists>t. g = RZ t q) (data built)) = 1
                   \<and> RZ (pi / 4) q \<in> set (data built))
             \<and> (\<forall>t q. RZ t q \<in> set (data built) \<longrightarrow>
                   t = pi / 4 \<and> 0 \<le> q \<and> q < num_qubits * num_dimensions))"
proof -
  let ?Q = "num_qubits * num_dimensions"
  let ?built = "\<lparr>qubits = ?Q, clbits = ?Q,
         data = spec_superposition num_qubits num_dimensions
              @ spec_coupling num_qubits num_dimensions
              @ spec_phase num_qubits num_dimensions
              @ spec_interference num_qubits num_dimensions
              @ spec_measurement num_qubits num_dimensions\<rparr>"
  have Q: "0 \<le> ?Q" using assms by simp
  have s: "phase_stage num_qubits num_dimensions c =
           c\<lparr>data := data c @ map (\<lambda>q. RZ (pi / 4) q) [0..?Q - 1]\<rparr>"
    by (simp add: phase_stage_eq spec_phase_def)
  have b: "create_string_vibration_circuit num_qubits num_dimensions = Inr ?built"
    using Q by (rule build_eq)
  have f: "filter (\<lambda>g. gate_stage g = 2) (data ?built) =
           map (\<lambda>q. RZ (pi / 4) q) [0..?Q - 1]"
    by (simp add: filter_stage) (simp add: spec_phase_def)
  have l: "length (filter (\<lambda>g. gate_stage g = 2) (data ?built)) = nat ?Q"
    unfolding f using Q by simp
  have once: "length (filter (\<lambda>g. \<exists>t. g = RZ t q) (data ?built)) =
        (if 0 \<le> q \<and> q \<le> ?Q - 1 then 1 else 0)" for q
  proof -
    have "filter (\<lambda>g. \<exists>t. g = RZ t q) (data ?built) =
          filter (\<lambda>g. \<exists>t. g = RZ t q) (filter (\<lambda>g. gate_stage g = 2) (data ?built))"
      by (rule filter_within_stage) auto
    also have "\<dots> =
          filter (\<lambda>g. \<exists>t. g = RZ t q) (map (\<lambda>q. RZ (pi / 4) q) [0..?Q - 1])"
      by (simp only: f)
    also have "\<dots> = map (\<lambda>q. RZ (pi / 4) q) (filter (\<lambda>i. i = q) [0..?Q - 1])"
    proof -
      have "(\<exists>t. RZ (pi / 4) x = RZ t q) = (x = q)" for x by blast
      then show ?thesis by (simp only: filter_map comp_def)
    qed
    finally show ?thesis
      by (simp add: length_filter_eq_upto)
  qed
  have mem: "RZ t q \<in> set (data ?built) \<longleftrightarrow> t = pi / 4 \<and> 0 \<le> q \<and> q < ?Q" for t q
    by (auto simp: spec_superposition_def spec_coupling_def spec_phase_def
        spec_interference_def spec_measurement_def)
  have "\<exists>built. create_string_vibration_circuit num_qubits num_dimensions = Inr built
             \<and> filter (\<lambda>g. gate_stage g = 2) (data built) =
                 map (\<lambda>q. RZ (pi / 4) q) [0..?Q - 1]
             \<and> length (filter (\<lambda>g. gate_stage g = 2) (data built)) = nat ?Q
             \<and> (\<forall>q. 0 \<le> q \<and> q < ?Q \<longrightarrow>
                   length (filter (\<lambda>g. \<exists>t. g = RZ t q) (data built)) = 1
                   \<and> RZ (pi / 4) q \<in> set (data built))
             \<and> (\<forall>t q. RZ t q \<in> set (data built) \<longrightarrow> t = pi / 4 \<and> 0 \<le> q \<and> q < ?Q)"
    apply (rule exI[of _ ?built])
    apply (intro conjI allI impI)
    subgoal by (rule b)
    subgoal by (rule f)
    subgoal by (rule l)
    subgoal for q using once[of q] by simp
    subgoal for q using mem[of "pi / 4" q] by simp
    subgoal for t q using mem[of t q] by simp
    subgoal for t q using mem[of t q] by simp
    subgoal for t q using mem[of t q] by simp
    done
  with s show ?thesis by (rule conjI)
qed

theorem phase_stage_uniform_witness:
  "phase_stage 2 2 \<lparr>qubits = 4, clbits = 4, data = []\<rparr> =
     \<lparr>qubits = 4, clbits = 4,
      data = [RZ (pi / 4) 0, RZ (pi / 4) 1, RZ (pi / 4) 2, RZ (pi / 4) 3]\<rparr>
   \<and> (\<exists>built. create_string_vibration_circuit 2 2 = Inr built
        \<and> length (filter (\<lambda>g. gate_stage g = 2) (data built)) = 4
        \<and> length (filter (\<lambda>g. \<exists>t. g = RZ t 3) (data built)) = 1)"
  using phase_stage_uniform [of 2 2 "\<lparr>qubits = 4, clbits = 4, data = []\<rparr>"]
  by (auto simp: upto.simps)


end
